theory Spec2Isabelle
  imports Complex_Main "HOL-Library.Multiset" "HOL-Library.Log_Nat"
begin

section \<open>Python values shared by both programs\<close>

text \<open>
  Exceptions are values. Each constructor is a Python exception class; \<open>PyException\<close>
  is the plain \<^verbatim>\<open>Exception(msg)\<close> the programs raise themselves, with its message.
  \<open>NameError v\<close> is the error of reading the unbound name \<open>v\<close>. A \<open>TypeError\<close> carries
  the interpreter's message (without its quotation marks), which tells the operation
  that raised it.
\<close>

datatype py_error =
    PyException string
  | NameError string
  | TypeError string
  | ValueError
  | IndexError
  | KeyError
  | StopIteration
  | RecursionError

type_synonym 'a result = "py_error + 'a"

section \<open>pyrena.py: validating an unpacked submission\<close>

text \<open>
  The file system is read through \<^verbatim>\<open>next(os.walk(path))\<close>: the listing of one directory,
  its sub-directory names and its file names. A path that is no directory gives an
  empty walk, and \<^verbatim>\<open>next\<close> raises \<^verbatim>\<open>StopIteration\<close>.
\<close>

type_synonym filesystem = "string \<Rightarrow> (string list \<times> string list) option"

definition walk_next :: "filesystem \<Rightarrow> string \<Rightarrow> (string \<times> string list \<times> string list) result" where
  "walk_next fs path =
     (case fs path of
        None \<Rightarrow> Inl StopIteration
      | Some (dirnames, filenames) \<Rightarrow> Inr (path, dirnames, filenames))"

definition KNOWN_LANGUAGE_EXTENSIONS :: "string list" where
  "KNOWN_LANGUAGE_EXTENSIONS = [''py'', ''cpp'', ''cs'', ''lua'', ''java'', ''js'', ''ts'']"

text \<open>\<^verbatim>\<open>os.path.join(a, b)\<close> on POSIX, for two components.\<close>

definition path_join :: "string \<Rightarrow> string \<Rightarrow> string" where
  "path_join a b =
     (if b \<noteq> [] \<and> hd b = CHR ''/'' then b
      else if a = [] \<or> last a = CHR ''/'' then a @ b
      else a @ ''/'' @ b)"

definition startswith :: "string \<Rightarrow> string \<Rightarrow> bool" where
  "startswith s p = (take (length p) s = p)"

text \<open>
  \<^verbatim>\<open>submission_joueur_folder\<close>, from the unpacked folder on: the loop over the directory
  names stops at the first name with the prefix \<^verbatim>\<open>Joueur.\<close>; an unknown language raises,
  and the loop's \<^verbatim>\<open>else\<close> raises when no name has the prefix. The messages are
  abbreviated to their fixed text.
\<close>

fun find_joueur :: "string \<Rightarrow> string list \<Rightarrow> string result" where
  "find_joueur dirpath [] =
     Inl (PyException ''does not unzip to top-level Joueur.xx'')"
| "find_joueur dirpath (dirname # rest) =
     (if startswith dirname ''Joueur.'' then
        (if drop (length ''Joueur.'') dirname \<notin> set KNOWN_LANGUAGE_EXTENSIONS
         then Inl (PyException ''using unkown language'')
         else Inr (path_join dirpath dirname))
      else find_joueur dirpath rest)"

definition submission_joueur_folder :: "filesystem \<Rightarrow> string \<Rightarrow> string result" where
  "submission_joueur_folder fs unzipped_folder =
     (case walk_next fs unzipped_folder of
        Inl e \<Rightarrow> Inl e
      | Inr (dirpath, dirnames, filenames) \<Rightarrow> find_joueur dirpath dirnames)"

text \<open>
  \<^verbatim>\<open>verify_submission_contents\<close>. Its two \<^verbatim>\<open>raise\<close> statements format a message with
  the name \<^verbatim>\<open>unzipped_folder\<close>, which is bound neither in the function nor in the
  module: evaluating the f-string raises \<^verbatim>\<open>NameError\<close> before any \<^verbatim>\<open>Exception\<close> is
  built. The parameter is the unpacked folder of the submission id
  (\<^verbatim>\<open>unzipped_submission_folder(submission_id)\<close>, read inside
  \<^verbatim>\<open>submission_joueur_folder\<close>).
\<close>

definition verify_submission_contents :: "filesystem \<Rightarrow> string \<Rightarrow> unit result" where
  "verify_submission_contents fs unzipped =
     (case submission_joueur_folder fs unzipped of
        Inl e \<Rightarrow> Inl e
      | Inr joueur_path \<Rightarrow>
          (case walk_next fs joueur_path of
             Inl e \<Rightarrow> Inl e
           | Inr (dirpath, dirnames, filenames) \<Rightarrow>
               if ''Makefile'' \<notin> set filenames \<and> ''makefile'' \<notin> set filenames
               then Inl (NameError ''unzipped_folder'')
               else if ''run'' \<notin> set filenames
               then Inl (NameError ''unzipped_folder'')
               else Inr ()))"

text \<open>A small file system for concrete runs: submission 30 unpacks to \<^verbatim>\<open>Joueur.py\<close>
  holding only a \<^verbatim>\<open>run\<close> file.\<close>

definition fs_no_makefile :: filesystem where
  "fs_no_makefile =
     (\<lambda>p. if p = ''/tmp/submission_cache/submission_30'' then Some ([''Joueur.py''], [])
          else if p = ''/tmp/submission_cache/submission_30/Joueur.py''
               then Some ([], [''run'', ''main.py''])
          else None)"

section \<open>tournament\_scheduler.py: the bracket\<close>

text \<open>
  A submission is a database row \<^verbatim>\<open>(id, name, version, status, created_at)\<close>, of which the
  bracket reads \<^verbatim>\<open>id\<close> and \<^verbatim>\<open>name\<close>, or the sentinel object \<^verbatim>\<open>BYE\<close> with \<^verbatim>\<open>id = -1\<close>.
  Equality of the datatype is both \<^verbatim>\<open>x is BYE\<close> and the \<^verbatim>\<open>==\<close> of the rows (a row never
  equals \<^verbatim>\<open>BYE\<close>). Every submission is truthy, so \<^verbatim>\<open>if node.winner\<close> tests for
  \<^verbatim>\<open>None\<close> only.
\<close>

datatype submission = BYE | Sub int string

fun sub_id :: "submission \<Rightarrow> int" where
  "sub_id BYE = -1"
| "sub_id (Sub i n) = i"

text \<open>A game row as the bracket holds it: \<^verbatim>\<open>(id, status, winner_id, log_url)\<close>.\<close>

record game =
  game_id :: int
  status :: string
  winner_id :: "int option"
  log_url :: "string option"

text \<open>
  The class \<^verbatim>\<open>Node\<close>. The bracket is the global list \<^verbatim>\<open>nodes\<close>, to which every node ever
  created is appended; a reference to a node is its index in that list. The fields
  \<^verbatim>\<open>left_submission\<close> ... \<^verbatim>\<open>right_inverted\<close> are never read after \<^verbatim>\<open>__init__\<close> and are
  left out.
\<close>

record node =
  submissions :: "submission list"
  feeders :: "nat list"
  inverted_feeders :: "nat list"
  games :: "game list"
  winner :: "submission option"
  loser :: "submission option"
  winner_child :: "nat option"
  loser_child :: "nat option"

definition Node :: node where
  "Node = \<lparr>submissions = [], feeders = [], inverted_feeders = [], games = [],
            winner = None, loser = None, winner_child = None, loser_child = None\<rparr>"

text \<open>Three submissions for concrete runs.\<close>

definition three_subs :: "submission list" where
  "three_subs = [Sub 10 ''A'', Sub 20 ''B'', Sub 30 ''C'']"

text \<open>
  \<^verbatim>\<open>width = 2**int(math.ceil(math.log2(len(submissions))) - 1)\<close>. Python's \<^verbatim>\<open>2**e\<close> is an
  \<^verbatim>\<open>int\<close> for \<^verbatim>\<open>e \<ge> 0\<close> and a \<^verbatim>\<open>float\<close> for \<^verbatim>\<open>e < 0\<close>, so a number is one or the other.
  \<^verbatim>\<open>math.log2(0)\<close> raises \<^verbatim>\<open>ValueError\<close>. The logarithm is the real one: the rounding of
  \<^verbatim>\<open>math.log2\<close> on lists of more than \<open>2^48\<close> elements is not modelled.
\<close>

datatype pynum = PyInt int | PyFloat real

definition py_pow2 :: "int \<Rightarrow> pynum" where
  "py_pow2 e = (if 0 \<le> e then PyInt (2 ^ nat e) else PyFloat (1 / 2 ^ nat (- e)))"

definition bracket_width :: "nat \<Rightarrow> pynum result" where
  "bracket_width n =
     (if n = 0 then Inl ValueError
      else Inr (py_pow2 (\<lceil>log 2 (real n)\<rceil> - 1)))"

text \<open>
  \<^verbatim>\<open>2*width - len(shuffled_submissions)\<close>; \<^verbatim>\<open>[BYE] * k\<close>, which is empty for an int
  \<^verbatim>\<open>k \<le> 0\<close> and a \<^verbatim>\<open>TypeError\<close> for a float \<^verbatim>\<open>k\<close>; and \<^verbatim>\<open>range(k)\<close>, a \<^verbatim>\<open>TypeError\<close>
  for a float as well.
\<close>

fun py_pad_count :: "pynum \<Rightarrow> nat \<Rightarrow> pynum" where
  "py_pad_count (PyInt w) n = PyInt (2 * w - int n)"
| "py_pad_count (PyFloat w) n = PyFloat (2 * w - real n)"

fun py_repeat :: "'a \<Rightarrow> pynum \<Rightarrow> 'a list result" where
  "py_repeat x (PyInt k) = Inr (replicate (nat k) x)"
| "py_repeat x (PyFloat k) =
     Inl (TypeError ''cannot multiply sequence by non-int of type float'')"

fun py_range :: "pynum \<Rightarrow> nat list result" where
  "py_range (PyInt k) = Inr [0..<nat k]"
| "py_range (PyFloat k) =
     Inl (TypeError ''float object cannot be interpreted as an integer'')"

text \<open>
  One of the two loops \<^verbatim>\<open>for node in nodes: node.submissions.append(shuffled[i]); i += 1\<close>;
  the counter \<^verbatim>\<open>i\<close> runs on from the first loop into the second. An index past the
  end of the list raises \<^verbatim>\<open>IndexError\<close>.
\<close>

fun append_submissions :: "node list \<Rightarrow> submission list \<Rightarrow> nat \<Rightarrow> (node list \<times> nat) result" where
  "append_submissions [] shuffled i = Inr ([], i)"
| "append_submissions (nd # nds) shuffled i =
     (if i < length shuffled then
        (case append_submissions nds shuffled (Suc i) of
           Inl e \<Rightarrow> Inl e
         | Inr (nds', j) \<Rightarrow>
             Inr (nd\<lparr>submissions := submissions nd @ [shuffled ! i]\<rparr> # nds', j))
      else Inl IndexError)"

text \<open>
  \<^verbatim>\<open>generate_initial_pairing\<close>. \<^verbatim>\<open>random.shuffle\<close> is the parameter \<open>shuffle\<close>: the
  list it leaves behind.
\<close>

definition generate_initial_pairing ::
  "(submission list \<Rightarrow> submission list) \<Rightarrow> submission list \<Rightarrow> node list result" where
  "generate_initial_pairing shuffle subs =
     (case bracket_width (length subs) of
        Inl e \<Rightarrow> Inl e
      | Inr width \<Rightarrow>
          (case py_repeat BYE (py_pad_count width (length (shuffle subs))) of
             Inl e \<Rightarrow> Inl e
           | Inr pad \<Rightarrow>
               (case py_range width of
                  Inl e \<Rightarrow> Inl e
                | Inr ks \<Rightarrow>
                    (case append_submissions (map (\<lambda>_. Node) ks) (shuffle subs @ pad) 0 of
                       Inl e \<Rightarrow> Inl e
                     | Inr (nodes1, i) \<Rightarrow>
                         (case append_submissions nodes1 (shuffle subs @ pad) i of
                            Inl e \<Rightarrow> Inl e
                          | Inr (nodes2, j) \<Rightarrow> Inr nodes2)))))"

subsection \<open>Declaring and propagating winners\<close>

type_synonym bracket = "node list"

text \<open>
  \<^verbatim>\<open>propogate_winners(node)\<close>: a node with feeders of either kind has its submissions
  rebuilt from the winners of its feeders, then the losers of its inverted feeders.
\<close>

definition propogate_winners :: "bracket \<Rightarrow> nat \<Rightarrow> bracket" where
  "propogate_winners s i =
     (let nd = s ! i;
          kept = (if feeders nd \<noteq> [] \<or> inverted_feeders nd \<noteq> [] then [] else submissions nd);
          won = List.map_filter (\<lambda>f. winner (s ! f)) (feeders nd);
          lost = List.map_filter (\<lambda>f. loser (s ! f)) (inverted_feeders nd)
      in s[i := nd\<lparr>submissions := kept @ won @ lost\<rparr>])"

text \<open>
  The three \<^verbatim>\<open>if\<close> statements under \<^verbatim>\<open># Handle byes\<close>, run one after the other, and the
  one under \<^verbatim>\<open># Handle playing yourself\<close>. Both apply to nodes with exactly two
  submissions.
\<close>

definition handle_byes :: "node \<Rightarrow> node" where
  "handle_byes nd =
     (case submissions nd of
        [a, b] \<Rightarrow>
          (let nd1 = (if a = BYE then nd\<lparr>winner := Some b, loser := Some BYE\<rparr> else nd);
               nd2 = (if b = BYE then nd1\<lparr>winner := Some a, loser := Some BYE\<rparr> else nd1)
           in if a = BYE \<and> b = BYE then nd2\<lparr>winner := Some BYE, loser := Some BYE\<rparr> else nd2)
      | _ \<Rightarrow> nd)"

definition handle_playing_yourself :: "node \<Rightarrow> node" where
  "handle_playing_yourself nd =
     (case submissions nd of
        [a, b] \<Rightarrow> (if a = b then nd\<lparr>winner := Some a, loser := Some b\<rparr> else nd)
      | _ \<Rightarrow> nd)"

text \<open>
  \<^verbatim>\<open>collections.Counter(g.winner_id for g in node.games if g.winner_id)\<close>: a dictionary in
  insertion order, as an association list. The filter is Python truthiness: \<^verbatim>\<open>None\<close> and
  \<^verbatim>\<open>0\<close> are dropped; the status of the game is not read.
\<close>

fun counter_incr :: "'a \<Rightarrow> ('a \<times> nat) list \<Rightarrow> ('a \<times> nat) list" where
  "counter_incr k [] = [(k, 1)]"
| "counter_incr k ((k', c) # rest) =
     (if k = k' then (k', Suc c) # rest else (k', c) # counter_incr k rest)"

definition Counter :: "'a list \<Rightarrow> ('a \<times> nat) list" where
  "Counter xs = foldl (\<lambda>acc k. counter_incr k acc) [] xs"

definition truthy_winner_ids :: "game list \<Rightarrow> int list" where
  "truthy_winner_ids gs =
     List.map_filter (\<lambda>g. case winner_id g of
                            None \<Rightarrow> None
                          | Some w \<Rightarrow> if w = 0 then None else Some w) gs"

text \<open>
  The loop over \<^verbatim>\<open>winners.items()\<close>. For an entry with more than \<^verbatim>\<open>BEST_OF // 2\<close> wins the
  inner loop over \<^verbatim>\<open>zip(node.submissions, reversed(node.submissions))\<close> takes the first
  pair whose first member has the winner's id, and its \<^verbatim>\<open>else\<close> raises when there is
  none. The outer loop has no \<^verbatim>\<open>break\<close>: it goes on to the remaining entries.
\<close>

fun find_pair :: "(submission \<times> submission) list \<Rightarrow> int \<Rightarrow> (submission \<times> submission) option" where
  "find_pair [] w = None"
| "find_pair ((a, b) # rest) w = (if sub_id a = w then Some (a, b) else find_pair rest w)"

fun declare_from_games :: "int \<Rightarrow> node \<Rightarrow> (int \<times> nat) list \<Rightarrow> node result" where
  "declare_from_games best_of nd [] = Inr nd"
| "declare_from_games best_of nd ((wid, wins) # rest) =
     (if int wins > best_of div 2 then
        (case find_pair (zip (submissions nd) (rev (submissions nd))) wid of
           None \<Rightarrow> Inl (PyException ''Winner was not a member of this node'')
         | Some (a, b) \<Rightarrow> declare_from_games best_of (nd\<lparr>winner := Some a, loser := Some b\<rparr>) rest)
      else declare_from_games best_of nd rest)"

text \<open>
  The body of \<^verbatim>\<open>declare_and_propogate_winners\<close> after the recursion into the feeders:
  propagate, handle byes and self-pairing, and, when there is still no winner, declare
  one from the games.
\<close>

definition declare_node :: "int \<Rightarrow> bracket \<Rightarrow> nat \<Rightarrow> bracket result" where
  "declare_node best_of s i =
     (let s1 = propogate_winners s i;
          nd = handle_playing_yourself (handle_byes (s1 ! i))
      in if winner nd = None then
           (case declare_from_games best_of nd (Counter (truthy_winner_ids (games nd))) of
              Inl e \<Rightarrow> Inl e
            | Inr nd' \<Rightarrow> Inr (s1[i := nd']))
         else Inr (s1[i := nd]))"

text \<open>
  \<^verbatim>\<open>declare_and_propogate_winners(node)\<close>, with the loop over \<^verbatim>\<open>node.feeders\<close> as
  \<open>declare_feeders\<close>. The first argument is the number of frames left on Python's call
  stack: a call with none left raises \<^verbatim>\<open>RecursionError\<close>, which is what a cycle of
  feeders ends in.
\<close>

fun declare_and_propogate_winners :: "nat \<Rightarrow> int \<Rightarrow> bracket \<Rightarrow> nat option \<Rightarrow> bracket result"
  and declare_feeders :: "nat \<Rightarrow> int \<Rightarrow> bracket \<Rightarrow> nat list \<Rightarrow> bracket result" where
  "declare_and_propogate_winners 0 best_of s node = Inl RecursionError"
| "declare_and_propogate_winners (Suc depth) best_of s None = Inr s"
| "declare_and_propogate_winners (Suc depth) best_of s (Some i) =
     (if winner (s ! i) \<noteq> None \<and> loser (s ! i) \<noteq> None then Inr s
      else (case declare_feeders depth best_of s (feeders (s ! i)) of
              Inl e \<Rightarrow> Inl e
            | Inr s1 \<Rightarrow> declare_node best_of s1 i))"
| "declare_feeders depth best_of s [] = Inr s"
| "declare_feeders depth best_of s (f # fs) =
     (case declare_and_propogate_winners depth best_of s (Some f) of
        Inl e \<Rightarrow> Inl e
      | Inr s1 \<Rightarrow> declare_feeders depth best_of s1 fs)"

subsection \<open>Refreshing the game statuses\<close>





text \<open>Games and brackets for concrete runs.\<close>

definition finished_game :: "int \<Rightarrow> int \<Rightarrow> game" where
  "finished_game gid wid =
     \<lparr>game_id = gid, status = ''finished'', winner_id = Some wid, log_url = Some ''log''\<rparr>"

definition queued_game :: "int \<Rightarrow> game" where
  "queued_game gid = \<lparr>game_id = gid, status = ''queued'', winner_id = None, log_url = None\<rparr>"

definition two_majorities :: bracket where
  "two_majorities =
     [Node\<lparr>submissions := [Sub 10 ''A'', Sub 20 ''B''],
           games := [finished_game 1 10, finished_game 2 20]\<rparr>]"

definition best_of_three :: bracket where
  "best_of_three =
     [Node\<lparr>submissions := [Sub 10 ''A'', Sub 20 ''B''],
           games := [finished_game 1 10, finished_game 2 20, finished_game 3 10]\<rparr>]"



subsection \<open>Growing the bracket\<close>

text \<open>
  \<^verbatim>\<open>generate_n_elimination_bracket_online(submissions, nodes, max_losses)\<close>. The two
  dictionaries \<^verbatim>\<open>wins\<close> and \<^verbatim>\<open>losses\<close> count, over all nodes, how often a submission is the
  winner and the loser; a submission that is in neither has count 0. A submission is
  one object of the program, so that \<^verbatim>\<open>who is node.winner\<close> is the equality of the
  submissions; a submission object, \<^verbatim>\<open>BYE\<close> too, and a node object are truthy.
\<close>

definition losses :: "bracket \<Rightarrow> submission \<Rightarrow> nat" where
  "losses s x = length (filter (\<lambda>nd. loser nd = Some x) s)"

definition wins :: "bracket \<Rightarrow> submission \<Rightarrow> nat" where
  "wins s x = length (filter (\<lambda>nd. winner nd = Some x) s)"

text \<open>
  The second loop over the nodes: node \<open>i\<close> contributes its winner when it has no
  \<^verbatim>\<open>winner_child\<close>, then its loser when it has no \<^verbatim>\<open>loser_child\<close> and the loser has fewer
  than \<^verbatim>\<open>max_losses\<close> losses. An entry is the index of the node and the submission.
\<close>

definition available_at :: "bracket \<Rightarrow> int \<Rightarrow> nat \<Rightarrow> (nat \<times> submission) list" where
  "available_at s max_losses i =
     (case winner (s ! i) of
        Some w \<Rightarrow> if winner_child (s ! i) = None then [(i, w)] else []
      | None \<Rightarrow> [])
     @ (case loser (s ! i) of
          Some l \<Rightarrow> if loser_child (s ! i) = None \<and> int (losses s l) < max_losses
                    then [(i, l)] else []
        | None \<Rightarrow> [])"

definition available :: "bracket \<Rightarrow> int \<Rightarrow> (nat \<times> submission) list" where
  "available s max_losses = concat (map (available_at s max_losses) [0..<length s])"

definition pending_matches :: "bracket \<Rightarrow> bool" where
  "pending_matches s = (\<exists>nd \<in> set s. winner nd = None)"

text \<open>
  A \<^verbatim>\<open>defaultdict(list)\<close> filled by \<^verbatim>\<open>d[key].append(v)\<close>, in insertion order. The loop over
  \<^verbatim>\<open>group.items()\<close> reads the keys only to print them, so a grouping is kept as the list
  of its classes. \<^verbatim>\<open>sorted\<close> is stable, as \<open>sort_key\<close> is.
\<close>

fun group_add :: "'k \<Rightarrow> 'v \<Rightarrow> ('k \<times> 'v list) list \<Rightarrow> ('k \<times> 'v list) list" where
  "group_add k v [] = [(k, [v])]"
| "group_add k v ((k', vs) # rest) =
     (if k = k' then (k', vs @ [v]) # rest else (k', vs) # group_add k v rest)"

definition group_by :: "('v \<Rightarrow> 'k) \<Rightarrow> 'v list \<Rightarrow> 'v list list" where
  "group_by f xs = map snd (foldl (\<lambda>d x. group_add (f x) x d) [] xs)"

definition available_by_score :: "bracket \<Rightarrow> int \<Rightarrow> (nat \<times> submission) list list" where
  "available_by_score s max_losses =
     group_by (\<lambda>(i, who). (losses s who, wins s who)) (available s max_losses)"

definition available_by_losses :: "bracket \<Rightarrow> int \<Rightarrow> (nat \<times> submission) list list" where
  "available_by_losses s max_losses =
     group_by (\<lambda>(i, who). losses s who) (available s max_losses)"

definition available_descending :: "bracket \<Rightarrow> int \<Rightarrow> (nat \<times> submission) list list" where
  "available_descending s max_losses =
     [sort_key (\<lambda>(i, who). - int (losses s who)) (available s max_losses)]"

text \<open>\<^verbatim>\<open>pairwise(collection)\<close>, which is \<^verbatim>\<open>zip(*([iter(collection)] * 2))\<close>: an odd last
  element is dropped.\<close>

fun pairwise :: "'a list \<Rightarrow> ('a \<times> 'a) list" where
  "pairwise (a # b # rest) = (a, b) # pairwise rest"
| "pairwise [a] = []"
| "pairwise [] = []"

text \<open>
  The body of \<^verbatim>\<open>for node, who in pair\<close>: the new node, which will have index \<open>new\<close>, gets
  the source node as a feeder when \<open>who\<close> is its winner, as an inverted feeder when
  \<open>who\<close> is its loser, and the source node gets the new node as the matching child.
\<close>

definition link :: "nat \<Rightarrow> nat \<times> submission \<Rightarrow> bracket \<times> node \<Rightarrow> bracket \<times> node" where
  "link new src st =
     (case src of (i, who) \<Rightarrow> case st of (s, nw) \<Rightarrow>
        if winner (s ! i) = Some who
        then (s[i := (s ! i)\<lparr>winner_child := Some new\<rparr>], nw\<lparr>feeders := feeders nw @ [i]\<rparr>)
        else if loser (s ! i) = Some who
        then (s[i := (s ! i)\<lparr>loser_child := Some new\<rparr>],
              nw\<lparr>inverted_feeders := inverted_feeders nw @ [i]\<rparr>)
        else (s, nw))"

text \<open>
  The three nested loops, on the list of nodes and the flag \<^verbatim>\<open>pending_matches\<close>: one pair
  appends one node and sets the flag; the flag is read after each grouping.
\<close>

definition add_match ::
  "bracket \<times> bool \<Rightarrow> (nat \<times> submission) \<times> (nat \<times> submission) \<Rightarrow> bracket \<times> bool" where
  "add_match st pq =
     (case st of (s, pend) \<Rightarrow> case pq of (p, q) \<Rightarrow>
        (case link (length s) q (link (length s) p (s, Node)) of
           (s2, new) \<Rightarrow> (s2 @ [new], True)))"

definition pair_class :: "bracket \<times> bool \<Rightarrow> (nat \<times> submission) list \<Rightarrow> bracket \<times> bool" where
  "pair_class st node_sources = foldl add_match st (pairwise node_sources)"

definition pair_group :: "bracket \<times> bool \<Rightarrow> (nat \<times> submission) list list \<Rightarrow> bracket \<times> bool" where
  "pair_group st grp = foldl pair_class st grp"

fun run_groups :: "bracket \<times> bool \<Rightarrow> (nat \<times> submission) list list list \<Rightarrow> bracket \<times> bool" where
  "run_groups st [] = st"
| "run_groups st (grp # rest) =
     (let st' = pair_group st grp in if snd st' then st' else run_groups st' rest)"

text \<open>
  The function returns a node when the tournament is finished and \<^verbatim>\<open>False\<close> otherwise;
  the list of nodes is updated in place and is returned here with the outcome.
  \<^verbatim>\<open>nodes[-1]\<close> raises \<^verbatim>\<open>IndexError\<close> on an empty list.
\<close>

datatype outcome = Winner_node nat | Not_finished

definition generate_n_elimination_bracket_online ::
  "(submission list \<Rightarrow> submission list) \<Rightarrow> submission list \<Rightarrow> bracket \<Rightarrow> int
     \<Rightarrow> (bracket \<times> outcome) result" where
  "generate_n_elimination_bracket_online shuffle subs nodes0 max_losses =
     (case (if nodes0 = [] then generate_initial_pairing shuffle subs else Inr nodes0) of
        Inl e \<Rightarrow> Inl e
      | Inr s \<Rightarrow>
          (let av = available s max_losses; pend = pending_matches s
           in if \<not> pend \<and> length av = 1 then Inr (s, Winner_node (fst (av ! 0)))
              else if \<not> pend \<and> length av = 0
              then (if s = [] then Inl IndexError else Inr (s, Winner_node (length s - 1)))
              else Inr (fst (run_groups (s, pend)
                               [available_by_score s max_losses,
                                available_by_losses s max_losses,
                                available_descending s max_losses]),
                        Not_finished)))"

text \<open>
  A grouping holds a pair when one of its classes has two entries. The loser of node
  \<open>i\<close> passes the guard of the second loop when the node has no \<^verbatim>\<open>loser_child\<close> and its
  loser has fewer than \<^verbatim>\<open>max_losses\<close> losses.
\<close>

definition pairs_in :: "'a list list \<Rightarrow> bool" where
  "pairs_in grp = (\<exists>cls \<in> set grp. 2 \<le> length cls)"

definition loser_available :: "bracket \<Rightarrow> int \<Rightarrow> nat \<Rightarrow> bool" where
  "loser_available s max_losses i =
     (i < length s \<and> loser_child (s ! i) = None \<and>
      (case loser (s ! i) of Some l \<Rightarrow> int (losses s l) < max_losses | None \<Rightarrow> False))"

text \<open>
  What one tick keeps, from the nodes \<open>s0\<close> it started with to the nodes \<open>s\<close> and the
  node \<open>nw\<close> under construction; and what holds of every entry of \<open>available\<close>.
\<close>

definition tick_inv :: "bracket \<Rightarrow> int \<Rightarrow> bracket \<Rightarrow> node \<Rightarrow> bool" where
  "tick_inv s0 N s nw =
     (length s0 \<le> length s \<and>
      (\<forall>i < length s0. winner (s ! i) = winner (s0 ! i) \<and> loser (s ! i) = loser (s0 ! i) \<and>
         (loser_child (s ! i) \<noteq> loser_child (s0 ! i) \<longrightarrow> loser_available s0 N i)) \<and>
      (\<forall>k < length s. length s0 \<le> k \<longrightarrow>
         (\<forall>i \<in> set (inverted_feeders (s ! k)). loser_available s0 N i)) \<and>
      (\<forall>i \<in> set (inverted_feeders nw). loser_available s0 N i))"

definition src_ok :: "bracket \<Rightarrow> int \<Rightarrow> nat \<times> submission \<Rightarrow> bool" where
  "src_ok s0 N src =
     (fst src < length s0 \<and>
      ((winner (s0 ! fst src) = Some (snd src) \<and> winner_child (s0 ! fst src) = None) \<or>
       (loser (s0 ! fst src) = Some (snd src) \<and> loser_available s0 N (fst src))))"

text \<open>
  Brackets for concrete runs. In \<open>eight_teams\<close> the leaves are A-B, C-D, E-F and G-H;
  A, C and E have won, A and C have met at node 4 and A has won, G-H is not decided.
\<close>

definition decided :: "submission \<Rightarrow> submission \<Rightarrow> node" where
  "decided w l = Node\<lparr>submissions := [w, l], winner := Some w, loser := Some l\<rparr>"

definition two_decided :: bracket where
  "two_decided = [decided (Sub 1 ''A'') (Sub 2 ''B''), decided (Sub 3 ''C'') (Sub 4 ''D'')]"

definition bye_winner :: bracket where
  "bye_winner = [decided BYE BYE, decided (Sub 1 ''A'') (Sub 2 ''B'')]"

definition uneven_wins :: bracket where
  "uneven_wins =
     [(decided (Sub 1 ''A'') (Sub 2 ''B''))\<lparr>winner_child := Some 2\<rparr>,
      (decided (Sub 3 ''C'') (Sub 4 ''D''))\<lparr>winner_child := Some 2\<rparr>,
      (decided (Sub 1 ''A'') (Sub 3 ''C''))\<lparr>feeders := [0, 1]\<rparr>,
      decided (Sub 5 ''E'') (Sub 6 ''F'')]"

definition eight_teams :: bracket where
  "eight_teams =
     [(decided (Sub 1 ''A'') (Sub 2 ''B''))\<lparr>winner_child := Some 4\<rparr>,
      (decided (Sub 3 ''C'') (Sub 4 ''D''))\<lparr>winner_child := Some 4\<rparr>,
      decided (Sub 5 ''E'') (Sub 6 ''F''),
      Node\<lparr>submissions := [Sub 7 ''G'', Sub 8 ''H'']\<rparr>,
      (decided (Sub 1 ''A'') (Sub 3 ''C''))\<lparr>feeders := [0, 1]\<rparr>]"

section \<open>pyrena.py: claiming a queued game, pairing\<close>



text \<open>
  A row of \<^verbatim>\<open>get_recent_games\<close>: \<^verbatim>\<open>(id, status, submission_ids)\<close>. The column
  \<^verbatim>\<open>submission_ids\<close> is \<^verbatim>\<open>string_agg(gs.submission_id::text, ',')\<close>, which
  \<^verbatim>\<open>map(int, g.submission_ids.split(','))\<close> reads back; the model holds the ids read.
\<close>

record recent_game =
  rg_id :: int
  rg_status :: string
  rg_submission_ids :: "int list"

text \<open>
  \<^verbatim>\<open>random.choice(ids)\<close> takes the next number \<open>r\<close> of a tape of random numbers and
  returns \<open>ids ! (r mod length ids)\<close>. The tape is finite: a run that needs more numbers
  than the tape holds has the value \<open>None\<close>, so that a loop that never ends has no
  result. \<open>draw_other\<close> is \<^verbatim>\<open>b = random.choice(ids)\<close> followed by
  \<^verbatim>\<open>while b == a: b = random.choice(ids)\<close>. A pair, \<^verbatim>\<open>tuple(sorted([a, b]))\<close>, is a sorted
  list.
\<close>

fun draw_other :: "nat list \<Rightarrow> int list \<Rightarrow> int \<Rightarrow> (int \<times> nat list) option" where
  "draw_other [] ids a = None"
| "draw_other (r # tape) ids a =
     (let b = ids ! (r mod length ids)
      in if b = a then draw_other tape ids a else Some (b, tape))"

definition generate_pairing ::
  "nat list \<Rightarrow> submission list \<Rightarrow> (int list result \<times> nat list) option" where
  "generate_pairing tape subs =
     (let ids = map sub_id subs
      in if length ids < 2 then Some (Inl (PyException ''Not enough submissions''), tape)
         else (case tape of
                 [] \<Rightarrow> None
               | r # tape1 \<Rightarrow>
                   (let a = ids ! (r mod length ids)
                    in case draw_other tape1 ids a of
                         None \<Rightarrow> None
                       | Some (b, tape2) \<Rightarrow> Some (Inr (sort [a, b]), tape2))))"

text \<open>
  The loop \<^verbatim>\<open>while pair in pairs\<close> of \<^verbatim>\<open>generate_nonrecent_pairing\<close>, with its counter
  \<^verbatim>\<open>tries\<close>.
\<close>

function nonrecent_loop ::
  "int \<Rightarrow> nat list \<Rightarrow> submission list \<Rightarrow> int list list \<Rightarrow> int list \<Rightarrow> int list result option" where
  "nonrecent_loop tries tape subs pairs pair =
     (if pair \<in> set pairs then
        (case generate_pairing tape subs of
           None \<Rightarrow> None
         | Some (Inl e, tape') \<Rightarrow> Some (Inl e)
         | Some (Inr pair', tape') \<Rightarrow>
             if tries - 1 \<le> 0
             then Some (Inl (PyException ''Unable to generate non-recent pairing''))
             else nonrecent_loop (tries - 1) tape' subs pairs pair')
      else Some (Inr pair))"
  by pat_completeness auto
termination
  by (relation "measure (\<lambda>(tries, tape, subs, pairs, pair). nat tries)") auto

declare nonrecent_loop.simps [simp del]

text \<open>
  \<^verbatim>\<open>{s.id: s for s in submissions}\<close> (a later submission of the same id wins) and the
  tuple of the look-ups, a \<^verbatim>\<open>KeyError\<close> for an id that is no key.
\<close>

definition id_to_submissions :: "submission list \<Rightarrow> int \<Rightarrow> submission option" where
  "id_to_submissions subs = map_of (rev (map (\<lambda>s. (sub_id s, s)) subs))"

fun lookup_all :: "(int \<Rightarrow> submission option) \<Rightarrow> int list \<Rightarrow> submission list result" where
  "lookup_all d [] = Inr []"
| "lookup_all d (k # ks) =
     (case d k of
        None \<Rightarrow> Inl KeyError
      | Some s \<Rightarrow> (case lookup_all d ks of Inl e \<Rightarrow> Inl e | Inr ss \<Rightarrow> Inr (s # ss)))"

definition generate_nonrecent_pairing ::
  "nat list \<Rightarrow> submission list \<Rightarrow> recent_game list \<Rightarrow> submission list result option" where
  "generate_nonrecent_pairing tape subs recent =
     (let pairs = map (\<lambda>g. sort (rg_submission_ids g))
                      (filter (\<lambda>g. rg_status g \<noteq> ''queued'') recent)
      in case generate_pairing tape subs of
           None \<Rightarrow> None
         | Some (Inl e, tape1) \<Rightarrow> Some (Inl e)
         | Some (Inr pair, tape1) \<Rightarrow>
             (case nonrecent_loop 200 tape1 subs pairs pair of
                None \<Rightarrow> None
              | Some (Inl e) \<Rightarrow> Some (Inl e)
              | Some (Inr pair') \<Rightarrow> Some (lookup_all (id_to_submissions subs) pair')))"



definition recent_a_b :: "recent_game list" where
  "recent_a_b = [\<lparr>rg_id = 1, rg_status = ''finished'', rg_submission_ids = [20, 10]\<rparr>]"

text \<open>What the proofs keep of a generated pair: two ids of the list in ascending order.\<close>

definition good_pair :: "submission list \<Rightarrow> int list \<Rightarrow> bool" where
  "good_pair subs pair \<longleftrightarrow>
     (\<exists>a b. pair = [a, b] \<and> a < b \<and> a \<in> sub_id ` set subs \<and> b \<in> sub_id ` set subs)"

section \<open>tournament\_scheduler.py: enqueueing the needed games\<close>






text \<open>
  \<^verbatim>\<open>create_needed_games(conn, levels)\<close>, with \<^verbatim>\<open>BEST_OF\<close> as an argument. A level is a list of
  nodes of the global list, given by their indices. \<open>attach\<close> is the body of the loop
  \<^verbatim>\<open>for i in range(len(finished_or_queued_games), BEST_OF)\<close> at node \<open>n\<close>, and
  \<open>node_games\<close> the body of the loop over the nodes.
\<close>

definition tracked :: "game \<Rightarrow> bool" where
  "tracked g = (status g \<in> set [''finished'', ''queued'', ''playing''])"









section \<open>Verified properties\<close>

subsection \<open>Submission validation\<close>

text \<open>
  C9. When the Joueur directory of a submission was found and its listing lacks both
  \<^verbatim>\<open>Makefile\<close> and \<^verbatim>\<open>makefile\<close>, or lacks \<^verbatim>\<open>run\<close>, the function raises, and what it raises
  is the NameError of the unbound \<^verbatim>\<open>unzipped_folder\<close>, never the Exception with the
  intended message.
\<close>

theorem verify_submission_contents_NameError:
  assumes "submission_joueur_folder fs unzipped = Inr joueur_path"
    and "fs joueur_path = Some (dirnames, filenames)"
    and "(''Makefile'' \<notin> set filenames \<and> ''makefile'' \<notin> set filenames)
         \<or> ''run'' \<notin> set filenames"
  shows "verify_submission_contents fs unzipped = Inl (NameError ''unzipped_folder'')
         \<and> (\<forall>msg. verify_submission_contents fs unzipped \<noteq> Inl (PyException msg))"
  using assms by (auto simp: verify_submission_contents_def walk_next_def)

theorem verify_submission_contents_NameError_witness:
  "submission_joueur_folder fs_no_makefile ''/tmp/submission_cache/submission_30''
     = Inr ''/tmp/submission_cache/submission_30/Joueur.py''
   \<and> verify_submission_contents fs_no_makefile ''/tmp/submission_cache/submission_30''
     = Inl (NameError ''unzipped_folder'')"
proof -
  have a: "submission_joueur_folder fs_no_makefile ''/tmp/submission_cache/submission_30''
     = Inr ''/tmp/submission_cache/submission_30/Joueur.py''"
    by (simp add: submission_joueur_folder_def walk_next_def fs_no_makefile_def
        startswith_def path_join_def KNOWN_LANGUAGE_EXTENSIONS_def)
  have b: "fs_no_makefile ''/tmp/submission_cache/submission_30/Joueur.py''
     = Some ([], [''run'', ''main.py''])"
    by (simp add: fs_no_makefile_def)
  have c: "(''Makefile'' \<notin> set [''run'', ''main.py''] \<and> ''makefile'' \<notin> set [''run'', ''main.py''])
         \<or> ''run'' \<notin> set [''run'', ''main.py'']"
    by simp
  from verify_submission_contents_NameError [OF a b c] a show ?thesis by simp
qed

subsection \<open>Initial pairing\<close>

lemma ceiling_log2_eq:
  assumes "0 < n"
  shows "\<lceil>log 2 (real n)\<rceil> = int (ceillog2 n)"
proof -
  have "0 \<le> log 2 (real n)" using assms by simp
  then have "0 \<le> \<lceil>log 2 (real n)\<rceil>" by linarith
  then show ?thesis using assms by (simp add: ceillog2_def)
qed

lemma append_submissions_ok:
  "i + length nds \<le> length sh \<Longrightarrow>
   append_submissions nds sh i =
     Inr (map (\<lambda>(nd, k). nd\<lparr>submissions := submissions nd @ [sh ! k]\<rparr>)
            (zip nds [i..<i + length nds]), i + length nds)"
proof (induction nds arbitrary: i)
  case Nil
  then show ?case by simp
next
  case (Cons nd nds)
  have "[i..<i + length (nd # nds)] = i # [Suc i..<Suc i + length nds]"
    by (simp add: upt_rec)
  moreover have "Suc i + length nds \<le> length sh" "i < length sh"
    using Cons.prems by simp_all
  ultimately show ?case using Cons.IH [of "Suc i"] by simp
qed

lemma ceillog2_ge1: "2 \<le> n \<Longrightarrow> 1 \<le> ceillog2 n"
  using ceillog2_ge_iff [of n 1] by simp

lemma le_twice_width:
  assumes "2 \<le> n"
  shows "n \<le> 2 * 2 ^ (ceillog2 n - 1)"
proof -
  have "n \<le> 2 ^ ceillog2 n" by (rule le_two_power_ceillog2)
  also have "(2::nat) ^ ceillog2 n = 2 * 2 ^ (ceillog2 n - 1)"
    using ceillog2_ge1 [OF assms] by (cases "ceillog2 n") simp_all
  finally show ?thesis .
qed

lemma bw_ge2:
  assumes "2 \<le> n"
  shows "bracket_width n = Inr (PyInt (2 ^ (ceillog2 n - 1)))"
proof -
  have "1 \<le> ceillog2 n" by (rule ceillog2_ge1 [OF assms])
  then show ?thesis using assms
    by (simp add: bracket_width_def py_pow2_def ceiling_log2_eq nat_diff_distrib' of_nat_diff)
qed


lemma append_submissions_twice:
  assumes "length p = 2 * w"
  shows "\<exists>nodes1 i j.
     append_submissions (map (\<lambda>_. Node) [0..<w]) p 0 = Inr (nodes1, i) \<and>
     append_submissions nodes1 p i =
       Inr (map (\<lambda>k. Node\<lparr>submissions := [p ! k, p ! (k + w)]\<rparr>) [0..<w], j)"
proof -
  let ?n0 = "map (\<lambda>_. Node) [0..<w]"
  let ?n1 = "map (\<lambda>(nd, k). nd\<lparr>submissions := submissions nd @ [p ! k]\<rparr>) (zip ?n0 [0..<0 + length ?n0])"
  have a: "append_submissions ?n0 p 0 = Inr (?n1, 0 + length ?n0)"
    by (rule append_submissions_ok) (simp add: assms)
  have b: "append_submissions ?n1 p w =
      Inr (map (\<lambda>(nd, k). nd\<lparr>submissions := submissions nd @ [p ! k]\<rparr>)
            (zip ?n1 [w..<w + length ?n1]), w + length ?n1)"
    by (rule append_submissions_ok) (simp add: assms)
  have c: "map (\<lambda>(nd, k). nd\<lparr>submissions := submissions nd @ [p ! k]\<rparr>)
            (zip ?n1 [w..<w + length ?n1])
          = map (\<lambda>k. Node\<lparr>submissions := [p ! k, p ! (k + w)]\<rparr>) [0..<w]"
    by (rule nth_equalityI) (simp_all add: Node_def add.commute)
  from a b c show ?thesis by simp
qed

lemma mset_concat_pairs:
  "mset (concat (map (\<lambda>k. [f k, g k]) ks)) = mset (map f ks @ map g ks)"
  by (induction ks) simp_all

lemma map_nth_halves:
  assumes "length p = 2 * w"
  shows "map (\<lambda>k. p ! k) [0..<w] @ map (\<lambda>k. p ! (k + w)) [0..<w] = p"
  by (rule nth_equalityI) (auto simp: assms nth_append)

text \<open>
  C5. For a list of \<open>n \<ge> 2\<close> submissions and a shuffle that permutes it,
  \<^verbatim>\<open>generate_initial_pairing\<close> returns \<open>w = 2^(\<lceil>log2 n\<rceil> - 1)\<close> leaves; leaf \<open>k\<close> holds exactly
  the two entries at positions \<open>k\<close> and \<open>k + w\<close> of the shuffled list padded with
  \<open>2w - n\<close> copies of \<^verbatim>\<open>BYE\<close>, and all entries together are the input submissions and
  those \<open>2w - n\<close> \<^verbatim>\<open>BYE\<close>s.
\<close>

theorem generate_initial_pairing_leaves:
  assumes "2 \<le> length subs"
    and "mset (shuffle subs) = mset subs"
    and "w = 2 ^ (nat \<lceil>log 2 (real (length subs))\<rceil> - 1)"
    and "padded = shuffle subs @ replicate (2 * w - length subs) BYE"
  shows "\<exists>nodes. generate_initial_pairing shuffle subs = Inr nodes
           \<and> length nodes = w
           \<and> length subs \<le> 2 * w
           \<and> (\<forall>k<w. submissions (nodes ! k) = [padded ! k, padded ! (k + w)])
           \<and> mset (concat (map submissions nodes))
               = mset subs + replicate_mset (2 * w - length subs) BYE"
proof -
  let ?n = "length subs"
  have n0: "0 < ?n" using assms(1) by linarith
  have w: "w = 2 ^ (ceillog2 ?n - 1)"
    using assms(3) ceiling_log2_eq [OF n0] by simp
  have le: "?n \<le> 2 * w" using le_twice_width [OF assms(1)] by (simp add: w)
  have len: "length (shuffle subs) = ?n"
    using assms(2) by (metis size_mset)
  have lp: "length padded = 2 * w" using le len by (simp add: assms(4))
  have bw: "bracket_width ?n = Inr (PyInt (int w))"
    using bw_ge2 [OF assms(1)] by (simp add: w)
  have pad: "py_repeat BYE (py_pad_count (PyInt (int w)) (length (shuffle subs)))
      = Inr (replicate (2 * w - ?n) BYE)"
    using le by (simp add: len nat_diff_distrib')
  let ?nodes = "map (\<lambda>k. Node\<lparr>submissions := [padded ! k, padded ! (k + w)]\<rparr>) [0..<w]"
  obtain nodes1 i j where
    s1: "append_submissions (map (\<lambda>_. Node) [0..<w]) padded 0 = Inr (nodes1, i)" and
    s2: "append_submissions nodes1 padded i = Inr (?nodes, j)"
    using append_submissions_twice [OF lp] by blast
  have res: "generate_initial_pairing shuffle subs = Inr ?nodes"
    using bw pad s1 s2 by (simp add: generate_initial_pairing_def assms(4))
  have "map submissions ?nodes = map (\<lambda>k. [padded ! k, padded ! (k + w)]) [0..<w]"
    by simp
  then have "mset (concat (map submissions ?nodes))
      = mset (map (\<lambda>k. padded ! k) [0..<w] @ map (\<lambda>k. padded ! (k + w)) [0..<w])"
    by (simp only: mset_concat_pairs)
  also have "\<dots> = mset padded" by (simp only: map_nth_halves [OF lp])
  also have "\<dots> = mset subs + replicate_mset (2 * w - ?n) BYE"
    by (simp add: assms(4) assms(2))
  finally have ms: "mset (concat (map submissions ?nodes))
      = mset subs + replicate_mset (2 * w - ?n) BYE" .
  have "\<forall>k<w. submissions (?nodes ! k) = [padded ! k, padded ! (k + w)]" by simp
  with res le ms show ?thesis by simp
qed


theorem generate_initial_pairing_leaves_witness:
  "\<exists>nodes. generate_initial_pairing rev three_subs = Inr nodes
      \<and> length nodes = 2
      \<and> map submissions nodes = [[Sub 30 ''C'', Sub 10 ''A''], [Sub 20 ''B'', BYE]]
      \<and> mset (concat (map submissions nodes)) = mset three_subs + replicate_mset 1 BYE"
proof -
  have "ceillog2 3 = 2" by (rule ceillog2_eqI) simp_all
  then have c: "\<lceil>log 2 (real (length three_subs))\<rceil> = 2"
    using ceiling_log2_eq [of 3] by (simp add: three_subs_def)
  have h1: "2 \<le> length three_subs" by (simp add: three_subs_def)
  have h2: "mset (rev three_subs) = mset three_subs" by simp
  have h3: "(2::nat) = 2 ^ (nat \<lceil>log 2 (real (length three_subs))\<rceil> - 1)"
    by (simp add: c)
  have h4: "[Sub 30 ''C'', Sub 20 ''B'', Sub 10 ''A'', BYE]
      = rev three_subs @ replicate (2 * 2 - length three_subs) BYE"
    by (simp add: three_subs_def)
  obtain nodes where n: "generate_initial_pairing rev three_subs = Inr nodes"
      "length nodes = 2"
      "\<forall>k<2. submissions (nodes ! k)
           = [[Sub 30 ''C'', Sub 20 ''B'', Sub 10 ''A'', BYE] ! k,
              [Sub 30 ''C'', Sub 20 ''B'', Sub 10 ''A'', BYE] ! (k + 2)]"
      "mset (concat (map submissions nodes))
         = mset three_subs + replicate_mset (2 * 2 - length three_subs) BYE"
    using generate_initial_pairing_leaves [where shuffle = rev, OF h1 h2 h3 h4] by blast
  obtain a b where ab: "nodes = [a, b]"
    using n(2) by (auto simp: numeral_2_eq_2 length_Suc_conv)
  have "submissions (nodes ! 0) = [Sub 30 ''C'', Sub 10 ''A'']"
       "submissions (nodes ! 1) = [Sub 20 ''B'', BYE]"
    using n(3) by simp_all
  then have "map submissions nodes = [[Sub 30 ''C'', Sub 10 ''A''], [Sub 20 ''B'', BYE]]"
    by (simp add: ab)
  moreover have "2 * 2 - length three_subs = 1" by (simp add: three_subs_def)
  ultimately show ?thesis using n by auto
qed

text \<open>
  C10 (amended). For a list of exactly one submission the width is the float \<open>0.5\<close>, and
  \<^verbatim>\<open>generate_initial_pairing\<close> raises whatever the shuffle does; it returns no nodes. The
  statement that raises is the padding \<^verbatim>\<open>[BYE] * (2*width - len(shuffled_submissions))\<close>,
  a list times a float: the \<^verbatim>\<open>TypeError\<close> is that of the sequence repetition.
\<close>

theorem generate_initial_pairing_single_raises:
  "bracket_width (length [s]) = Inr (PyFloat (1 / 2))
   \<and> generate_initial_pairing shuffle [s] =
       Inl (TypeError ''cannot multiply sequence by non-int of type float'')"
  by (simp add: generate_initial_pairing_def bracket_width_def py_pow2_def)

text \<open>
  The claim has \<^verbatim>\<open>range(width)\<close> fail. On the list of the one submission A the exception
  is not the one \<^verbatim>\<open>range\<close> raises for a float: the padding, one line earlier, raises
  first, and \<^verbatim>\<open>range(width)\<close> is never evaluated.
\<close>

theorem generate_initial_pairing_range_counterexample:
  "py_range (PyFloat (1 / 2)) = Inl (TypeError ''float object cannot be interpreted as an integer'')
   \<and> generate_initial_pairing id [Sub 10 ''A'']
       \<noteq> Inl (TypeError ''float object cannot be interpreted as an integer'')
   \<and> generate_initial_pairing id [Sub 10 ''A'']
       = Inl (TypeError ''cannot multiply sequence by non-int of type float'')"
  by (simp add: generate_initial_pairing_def bracket_width_def py_pow2_def)

subsection \<open>Declaring winners; decided nodes\<close>




lemma counter_incr_map_of:
  "map_of (counter_incr k acc) =
     (map_of acc)(k \<mapsto> Suc (case map_of acc k of None \<Rightarrow> 0 | Some c \<Rightarrow> c))"
  by (induction acc) (auto simp: fun_eq_iff)

lemma counter_incr_keys:
  "map fst (counter_incr k acc) =
     (if k \<in> set (map fst acc) then map fst acc else map fst acc @ [k])"
  by (induction acc) (force split: if_splits)+

lemma counter_incr_distinct:
  "distinct (map fst acc) \<Longrightarrow> distinct (map fst (counter_incr k acc))"
  by (simp add: counter_incr_keys)

lemma Counter_snoc: "Counter (xs @ [x]) = counter_incr x (Counter xs)"
  by (simp add: Counter_def)

lemma Counter_distinct: "distinct (map fst (Counter xs))"
  by (induction xs rule: rev_induct) (simp_all add: Counter_snoc counter_incr_distinct, simp add: Counter_def)

lemma Counter_map_of:
  "map_of (Counter xs) v = (if v \<in> set xs then Some (count_list xs v) else None)"
proof (induction xs arbitrary: v rule: rev_induct)
  case Nil
  then show ?case by (simp add: Counter_def)
next
  case (snoc x xs)
  then show ?case by (simp add: Counter_snoc counter_incr_map_of)
qed

lemma Counter_entry:
  "(v, c) \<in> set (Counter xs) \<longleftrightarrow> v \<in> set xs \<and> c = count_list xs v"
  using map_of_eq_Some_iff [OF Counter_distinct, of xs v c]
  by (auto simp: Counter_map_of split: if_splits)

lemma declare_from_games_none:
  "\<forall>(v, c) \<in> set es. \<not> best_of div 2 < int c \<Longrightarrow> declare_from_games best_of nd es = Inr nd"
  by (induction es) auto

lemma declare_from_games_unique:
  assumes "distinct (map fst es)"
    and "(w, c) \<in> set es"
    and "best_of div 2 < int c"
    and "\<forall>(v, c') \<in> set es. v \<noteq> w \<longrightarrow> \<not> best_of div 2 < int c'"
  shows "declare_from_games best_of nd es =
     (case find_pair (zip (submissions nd) (rev (submissions nd))) w of
        None \<Rightarrow> Inl (PyException ''Winner was not a member of this node'')
      | Some (x, y) \<Rightarrow> Inr (nd\<lparr>winner := Some x, loser := Some y\<rparr>))"
  using assms
proof (induction es)
  case Nil
  then show ?case by simp
next
  case (Cons e es)
  obtain v c' where e: "e = (v, c')" by (cases e)
  show ?case
  proof (cases "v = w")
    case True
    have c: "c' = c" using Cons.prems(1,2) e True by (auto simp: rev_image_eqI)
    have rest: "\<forall>(u, k) \<in> set es. \<not> best_of div 2 < int k"
      using Cons.prems(1,4) e True by (auto simp: rev_image_eqI)
    show ?thesis
      using Cons.prems(3) declare_from_games_none [OF rest]
      by (simp add: e True c split: option.splits)
  next
    case False
    then have "\<not> best_of div 2 < int c'" using Cons.prems(4) e by auto
    moreover have "(w, c) \<in> set es" using Cons.prems(2) e False by auto
    ultimately show ?thesis using Cons e by simp
  qed
qed


lemma find_pair_two:
  "find_pair (zip [a, b] (rev [a, b])) w =
     (if sub_id a = w then Some (a, b) else if sub_id b = w then Some (b, a) else None)"
  by simp

text \<open>
  C2 (amended). Take a node that has no winner on entry and, once its feeders are done
  and the winners propagated, holds two distinct real submissions \<open>a\<close> and \<open>b\<close> and
  still no winner. The games are counted by \<^verbatim>\<open>winner_id\<close> (those with a non-null, non-zero
  \<^verbatim>\<open>winner_id\<close>, whatever their status). If exactly one \<^verbatim>\<open>winner_id\<close> \<open>w\<close> has more than
  \<^verbatim>\<open>BEST_OF // 2\<close> wins, then \<open>w\<close> decides the node: the submission with that id becomes
  the winner and the other one the loser, and the call raises when \<open>w\<close> is the id of
  neither.
\<close>

theorem declare_winner_from_games:
  assumes "winner (s ! i) = None"
    and "declare_feeders d best_of s (feeders (s ! i)) = Inr s1"
    and "s2 = propogate_winners s1 i"
    and "i < length s1"
    and "winner (s2 ! i) = None"
    and "submissions (s2 ! i) = [a, b]"
    and "a \<noteq> BYE" and "b \<noteq> BYE" and "a \<noteq> b"
    and "ids = truthy_winner_ids (games (s2 ! i))"
    and "w \<in> set ids"
    and "best_of div 2 < int (count_list ids w)"
    and "\<forall>v \<in> set ids. v \<noteq> w \<longrightarrow> \<not> best_of div 2 < int (count_list ids v)"
  shows "declare_and_propogate_winners (Suc d) best_of s (Some i) =
     (if w = sub_id a then Inr (s2[i := (s2 ! i)\<lparr>winner := Some a, loser := Some b\<rparr>])
      else if w = sub_id b then Inr (s2[i := (s2 ! i)\<lparr>winner := Some b, loser := Some a\<rparr>])
      else Inl (PyException ''Winner was not a member of this node''))"
proof -
  let ?nd = "s2 ! i"
  have hb: "handle_playing_yourself (handle_byes ?nd) = ?nd"
    using assms(6-9) by (simp add: handle_byes_def handle_playing_yourself_def)
  have e1: "(w, count_list ids w) \<in> set (Counter ids)"
    using assms(11) by (simp add: Counter_entry)
  have e2: "\<forall>(v, c') \<in> set (Counter ids). v \<noteq> w \<longrightarrow> \<not> best_of div 2 < int c'"
    using assms(13) by (auto simp: Counter_entry)
  have g: "declare_from_games best_of ?nd (Counter ids) =
     (case find_pair (zip (submissions ?nd) (rev (submissions ?nd))) w of
        None \<Rightarrow> Inl (PyException ''Winner was not a member of this node'')
      | Some (x, y) \<Rightarrow> Inr (?nd\<lparr>winner := Some x, loser := Some y\<rparr>))"
    by (rule declare_from_games_unique [OF Counter_distinct e1 assms(12) e2])
  have n: "declare_node best_of s1 i =
     (case declare_from_games best_of ?nd (Counter ids) of
        Inl e \<Rightarrow> Inl e
      | Inr nd' \<Rightarrow> Inr (s2[i := nd']))"
    using assms(5) by (simp add: declare_node_def Let_def assms(3) [symmetric] hb assms(10))
  have "declare_and_propogate_winners (Suc d) best_of s (Some i) = declare_node best_of s1 i"
    using assms(1,2) by simp
  also have "\<dots> =
     (if w = sub_id a then Inr (s2[i := ?nd\<lparr>winner := Some a, loser := Some b\<rparr>])
      else if w = sub_id b then Inr (s2[i := ?nd\<lparr>winner := Some b, loser := Some a\<rparr>])
      else Inl (PyException ''Winner was not a member of this node''))"
    unfolding n g assms(6) find_pair_two by auto
  finally show ?thesis .
qed

lemmas bracket_eval =
  declare_node_def propogate_winners_def handle_byes_def handle_playing_yourself_def
  Counter_def truthy_winner_ids_def List.map_filter_simps Node_def Let_def
  finished_game_def queued_game_def

theorem declare_winner_from_games_witness:
  "declare_and_propogate_winners (Suc 0) 3 best_of_three (Some 0) =
     Inr [(best_of_three ! 0)\<lparr>winner := Some (Sub 10 ''A''), loser := Some (Sub 20 ''B'')\<rparr>]"
proof -
  have "declare_and_propogate_winners (Suc 0) 3 best_of_three (Some 0) =
     (if (10::int) = sub_id (Sub 10 ''A'')
      then Inr (best_of_three[0 := (best_of_three ! 0)\<lparr>winner := Some (Sub 10 ''A''), loser := Some (Sub 20 ''B'')\<rparr>])
      else if (10::int) = sub_id (Sub 20 ''B'')
      then Inr (best_of_three[0 := (best_of_three ! 0)\<lparr>winner := Some (Sub 20 ''B''), loser := Some (Sub 10 ''A'')\<rparr>])
      else Inl (PyException ''Winner was not a member of this node''))"
    by (rule declare_winner_from_games [where ?s1.0 = best_of_three and ids = "[10, 20, 10]"])
       (simp_all add: best_of_three_def bracket_eval)
  then show ?thesis by (simp add: best_of_three_def)
qed

text \<open>
  With \<^verbatim>\<open>BEST_OF = 1\<close> and two games won by 10 and by 20, both ids have more than
  \<^verbatim>\<open>BEST_OF // 2 = 0\<close> wins. The first of them is 10, yet the node ends with the
  submission of id 20 as its winner: the loop over the counter has no \<^verbatim>\<open>break\<close>, so the
  last id with a majority decides.
\<close>

theorem declare_first_majority_counterexample:
  "Counter (truthy_winner_ids (games (two_majorities ! 0))) = [(10, 1), (20, 1)]
   \<and> (1::int) div 2 < int 1
   \<and> declare_and_propogate_winners (Suc 0) 1 two_majorities (Some 0) =
       Inr [(two_majorities ! 0)\<lparr>winner := Some (Sub 20 ''B''), loser := Some (Sub 10 ''A'')\<rparr>]"
  by (simp add: two_majorities_def bracket_eval)









subsection \<open>Non-recent pairings\<close>

lemma draw_other_some:
  "draw_other tape ids a = Some (b, tape') \<Longrightarrow> ids \<noteq> [] \<Longrightarrow> b \<in> set ids \<and> b \<noteq> a"
  by (induction tape) (auto simp: Let_def split: if_splits)

lemma generate_pairing_good:
  assumes "generate_pairing tape subs = Some (Inr pair, tape')"
  shows "good_pair subs pair"
proof -
  let ?ids = "map sub_id subs"
  from assms have len: "\<not> length ?ids < 2"
    by (auto simp: generate_pairing_def Let_def split: if_splits)
  then have ne: "?ids \<noteq> []" by auto
  from assms len obtain r tape1 b where
    d: "draw_other tape1 ?ids (?ids ! (r mod length ?ids)) = Some (b, tape')" and
    p: "pair = sort [?ids ! (r mod length ?ids), b]"
    by (auto simp: generate_pairing_def Let_def split: if_splits list.splits option.splits)
  let ?a = "?ids ! (r mod length ?ids)"
  have a: "?a \<in> set ?ids" using ne by (intro nth_mem) simp
  from draw_other_some [OF d ne] have b: "b \<in> set ?ids" "b \<noteq> ?a" by simp_all
  show ?thesis
  proof (cases "?a < b")
    case True
    then show ?thesis using a b p unfolding good_pair_def by (intro exI [of _ ?a] exI [of _ b]) auto
  next
    case False
    then have "b < ?a" using b by auto
    then show ?thesis using a b p unfolding good_pair_def by (intro exI [of _ b] exI [of _ ?a]) auto
  qed
qed

lemma nonrecent_loop_good:
  "nonrecent_loop tries tape subs pairs pair = Some (Inr p) \<Longrightarrow> good_pair subs pair \<Longrightarrow>
     good_pair subs p \<and> p \<notin> set pairs"
proof (induction tries tape subs pairs pair rule: nonrecent_loop.induct)
  case (1 tries tape subs pairs pair)
  show ?case
  proof (cases "pair \<in> set pairs")
    case False
    with "1.prems" show ?thesis
      by (simp add: nonrecent_loop.simps [of tries tape subs pairs pair])
  next
    case True
    with "1.prems"(1) obtain pair' tape' where
      g: "generate_pairing tape subs = Some (Inr pair', tape')" and
      t: "\<not> tries - 1 \<le> 0" and
      r: "nonrecent_loop (tries - 1) tape' subs pairs pair' = Some (Inr p)"
      by (auto simp: nonrecent_loop.simps [of tries tape subs pairs pair]
          split: option.splits sum.splits if_splits)
    show ?thesis
      using "1.IH" [OF True g refl refl t r generate_pairing_good [OF g]] .
  qed
qed

lemma id_to_submissions_some:
  "id_to_submissions subs a = Some x \<Longrightarrow> x \<in> set subs \<and> sub_id x = a"
  by (auto simp: id_to_submissions_def dest!: map_of_SomeD)

lemma lookup_all_two:
  "lookup_all d [a, b] = Inr res \<Longrightarrow> \<exists>x y. res = [x, y] \<and> d a = Some x \<and> d b = Some y"
  by (auto split: option.splits)

lemma sort_two_ids:
  assumes "length xs = 2" and "set xs = {a, b}"
  shows "sort xs = sort [a, b]"
proof -
  from assms(1) obtain p q where xs: "xs = [p, q]"
    by (auto simp: numeral_2_eq_2 length_Suc_conv)
  with assms(2) have "(p = a \<and> q = b) \<or> (p = b \<and> q = a)"
    by (auto simp: doubleton_eq_iff)
  then show ?thesis by (auto simp: xs)
qed

text \<open>
  C4. Whenever \<^verbatim>\<open>generate_nonrecent_pairing\<close> returns a pair, the pair is two members
  \<open>x\<close> and \<open>y\<close> of the given list, distinct and with distinct ids, and for every
  recent game that is not queued the sorted tuple of its submission ids is not the
  sorted tuple of the two ids; for such a game with two submission ids, its set of ids
  is not the set of the two ids returned.
\<close>

theorem generate_nonrecent_pairing_not_recent:
  assumes "generate_nonrecent_pairing tape subs recent = Some (Inr res)"
  shows "\<exists>x y. res = [x, y] \<and> x \<in> set subs \<and> y \<in> set subs \<and> x \<noteq> y
           \<and> sub_id x \<noteq> sub_id y
           \<and> (\<forall>g \<in> set recent. rg_status g \<noteq> ''queued'' \<longrightarrow>
                 sort (rg_submission_ids g) \<noteq> sort [sub_id x, sub_id y])
           \<and> (\<forall>g \<in> set recent. rg_status g \<noteq> ''queued'' \<longrightarrow>
                 length (rg_submission_ids g) = 2 \<longrightarrow>
                 set (rg_submission_ids g) \<noteq> {sub_id x, sub_id y})"
proof -
  let ?pairs = "map (\<lambda>g. sort (rg_submission_ids g)) (filter (\<lambda>g. rg_status g \<noteq> ''queued'') recent)"
  from assms obtain pair tape1 pair' where
    g: "generate_pairing tape subs = Some (Inr pair, tape1)" and
    l: "nonrecent_loop 200 tape1 subs ?pairs pair = Some (Inr pair')" and
    r: "lookup_all (id_to_submissions subs) pair' = Inr res"
    by (auto simp: generate_nonrecent_pairing_def Let_def split: option.splits sum.splits)
  from nonrecent_loop_good [OF l generate_pairing_good [OF g]]
  have gp: "good_pair subs pair'" and np: "pair' \<notin> set ?pairs" by simp_all
  from gp obtain a b where ab: "pair' = [a, b]" "a < b"
    unfolding good_pair_def by blast
  from lookup_all_two [OF r [unfolded ab(1)]] obtain x y where
    xy: "res = [x, y]" "id_to_submissions subs a = Some x" "id_to_submissions subs b = Some y"
    by blast
  from id_to_submissions_some [OF xy(2)] id_to_submissions_some [OF xy(3)]
  have m: "x \<in> set subs" "sub_id x = a" "y \<in> set subs" "sub_id y = b" by simp_all
  have s: "sort [sub_id x, sub_id y] = pair'" using ab m by simp
  have n1: "\<forall>g \<in> set recent. rg_status g \<noteq> ''queued'' \<longrightarrow>
                 sort (rg_submission_ids g) \<noteq> sort [sub_id x, sub_id y]"
    using np unfolding s by auto
  have n2: "\<forall>g \<in> set recent. rg_status g \<noteq> ''queued'' \<longrightarrow>
                 length (rg_submission_ids g) = 2 \<longrightarrow>
                 set (rg_submission_ids g) \<noteq> {sub_id x, sub_id y}"
    using n1 sort_two_ids by blast
  have "x \<noteq> y" "sub_id x \<noteq> sub_id y" using ab(2) m by auto
  with xy(1) m n1 n2 show ?thesis by blast
qed

theorem generate_nonrecent_pairing_not_recent_witness:
  "generate_nonrecent_pairing [0, 0, 1, 0, 2] three_subs recent_a_b
     = Some (Inr [Sub 10 ''A'', Sub 30 ''C''])
   \<and> generate_pairing [0, 0, 1, 0, 2] three_subs = Some (Inr [10, 20], [0, 2])
   \<and> sort (rg_submission_ids (recent_a_b ! 0)) = [10, 20]"
proof -
  have r: "generate_nonrecent_pairing [0, 0, 1, 0, 2] three_subs recent_a_b
     = Some (Inr [Sub 10 ''A'', Sub 30 ''C''])"
    by (simp add: generate_nonrecent_pairing_def generate_pairing_def three_subs_def
        recent_a_b_def id_to_submissions_def Let_def nonrecent_loop.simps)
  have p: "generate_pairing [0, 0, 1, 0, 2] three_subs = Some (Inr [10, 20], [0, 2])"
    by (simp add: generate_pairing_def three_subs_def Let_def)
  have s: "sort (rg_submission_ids (recent_a_b ! 0)) = [10, 20]"
    by (simp add: recent_a_b_def)
  from generate_nonrecent_pairing_not_recent [OF r] r p s show ?thesis by blast
qed

subsection \<open>Claiming a queued game\<close>






subsection \<open>Growing the bracket\<close>

lemma pairwise_empty: "pairwise cls = [] \<longleftrightarrow> length cls < 2"
  by (induction cls rule: pairwise.induct) simp_all

lemma link_length: "length (fst (link new src st)) = length (fst st)"
  by (auto simp: link_def split: prod.splits)

lemma add_match_length: "length (fst (add_match st pq)) = Suc (length (fst st))"
  using link_length [of "length (fst st)" "snd pq" "link (length (fst st)) (fst pq) (fst st, Node)"]
        link_length [of "length (fst st)" "fst pq" "(fst st, Node)"]
  by (auto simp: add_match_def split: prod.splits)

lemma add_match_flag: "snd (add_match st pq)"
  by (auto simp: add_match_def split: prod.splits)

lemma pairs_length:
  "length (fst (foldl add_match st ps)) = length (fst st) + length ps"
  by (induction ps arbitrary: st) (simp_all add: add_match_length)

lemma pairs_flag: "snd (foldl add_match st ps) \<longleftrightarrow> snd st \<or> ps \<noteq> []"
proof (induction ps arbitrary: st)
  case Nil
  then show ?case by simp
next
  case (Cons p ps)
  then show ?case by (simp add: add_match_flag)
qed

lemma pair_class_none: "length cls < 2 \<Longrightarrow> pair_class st cls = st"
  using pairwise_empty [of cls] by (simp add: pair_class_def)

lemma pair_class_grows: "length (fst st) \<le> length (fst (pair_class st cls))"
  by (simp add: pair_class_def pairs_length)

lemma pair_class_length:
  "length (fst (pair_class st cls)) > length (fst st) \<longleftrightarrow> 2 \<le> length cls"
  using pairwise_empty [of cls] by (auto simp: pair_class_def pairs_length)

lemma pair_class_flag: "snd (pair_class st cls) \<longleftrightarrow> snd st \<or> 2 \<le> length cls"
  using pairwise_empty [of cls] by (auto simp: pair_class_def pairs_flag)

lemma pair_group_flag: "snd (pair_group st grp) \<longleftrightarrow> snd st \<or> pairs_in grp"
  unfolding pair_group_def pairs_in_def
  by (induction grp arbitrary: st) (auto simp: pair_class_flag)

lemma pair_group_none: "\<not> pairs_in grp \<Longrightarrow> pair_group st grp = st"
  unfolding pair_group_def pairs_in_def
  by (induction grp arbitrary: st) (auto simp: pair_class_none)

lemma pair_group_grows: "length (fst st) \<le> length (fst (pair_group st grp))"
  unfolding pair_group_def
proof (induction grp arbitrary: st)
  case Nil
  then show ?case by simp
next
  case (Cons cls grp)
  have "length (fst st) \<le> length (fst (pair_class st cls))" by (rule pair_class_grows)
  also have "\<dots> \<le> length (fst (foldl pair_class (pair_class st cls) grp))" by (rule Cons.IH)
  finally show ?case by simp
qed

lemma pair_group_length:
  "length (fst (pair_group st grp)) > length (fst st) \<longleftrightarrow> pairs_in grp"
proof
  assume "length (fst st) < length (fst (pair_group st grp))"
  then show "pairs_in grp" using pair_group_none [of grp st] by (cases "pairs_in grp") simp_all
next
  assume "pairs_in grp"
  then obtain cls where c: "cls \<in> set grp" "2 \<le> length cls" unfolding pairs_in_def by blast
  then obtain pre post where g: "grp = pre @ cls # post" by (meson split_list)
  let ?a = "pair_group st pre"
  have "length (fst st) \<le> length (fst ?a)" by (rule pair_group_grows)
  also have "\<dots> < length (fst (pair_class ?a cls))" using c(2) by (simp add: pair_class_length)
  also have "\<dots> \<le> length (fst (pair_group (pair_class ?a cls) post))" by (rule pair_group_grows)
  finally show "length (fst st) < length (fst (pair_group st grp))"
    by (simp add: g pair_group_def)
qed

lemma available_src_ok:
  assumes "src \<in> set (available s N)"
  shows "src_ok s N src"
proof -
  from assms obtain i where i: "i < length s" "src \<in> set (available_at s N i)"
    by (auto simp: available_def)
  then show ?thesis
    by (auto simp: available_at_def src_ok_def loser_available_def
             split: option.splits if_splits)
qed

lemma link_inv:
  assumes "tick_inv s0 N s nw" and "src_ok s0 N src"
  shows "tick_inv s0 N (fst (link new src (s, nw))) (snd (link new src (s, nw)))"
proof -
  obtain i who where src: "src = (i, who)" by (cases src)
  have i: "i < length s0" "i < length s" using assms by (auto simp: tick_inv_def src_ok_def src)
  have w: "winner (s ! i) = winner (s0 ! i)" "loser (s ! i) = loser (s0 ! i)"
    using assms(1) i by (auto simp: tick_inv_def)
  show ?thesis
  proof (cases "winner (s ! i) = Some who")
    case True
    then have l: "link new src (s, nw) =
        (s[i := (s ! i)\<lparr>winner_child := Some new\<rparr>], nw\<lparr>feeders := feeders nw @ [i]\<rparr>)"
      by (simp add: link_def src)
    show ?thesis unfolding l using assms(1) i
      by (auto simp: tick_inv_def nth_list_update)
  next
    case False
    show ?thesis
    proof (cases "loser (s ! i) = Some who")
      case True
      then have l: "link new src (s, nw) =
          (s[i := (s ! i)\<lparr>loser_child := Some new\<rparr>],
           nw\<lparr>inverted_feeders := inverted_feeders nw @ [i]\<rparr>)"
        using False by (simp add: link_def src)
      have la: "loser_available s0 N i"
        using assms(2) False w by (auto simp: src_ok_def src)
      show ?thesis unfolding l using assms(1) i la
        by (auto simp: tick_inv_def nth_list_update)
    next
      case False2: False
      then have l: "link new src (s, nw) = (s, nw)"
        using False by (simp add: link_def src)
      show ?thesis unfolding l using assms(1) by simp
    qed
  qed
qed

lemma add_match_inv:
  assumes "tick_inv s0 N (fst st) Node" and "src_ok s0 N (fst pq)" and "src_ok s0 N (snd pq)"
  shows "tick_inv s0 N (fst (add_match st pq)) Node"
proof -
  obtain s pend where st: "st = (s, pend)" by (cases st)
  obtain p q where pq: "pq = (p, q)" by (cases pq)
  obtain s1 n1 where l1: "link (length s) p (s, Node) = (s1, n1)" by (cases "link (length s) p (s, Node)")
  obtain s2 n2 where l2: "link (length s) q (s1, n1) = (s2, n2)" by (cases "link (length s) q (s1, n1)")
  have i1: "tick_inv s0 N s1 n1"
    using link_inv [OF assms(1) [unfolded st fst_conv] assms(2) [unfolded pq fst_conv], of "length s"]
    by (simp add: l1)
  have i2: "tick_inv s0 N s2 n2"
    using link_inv [OF i1 assms(3) [unfolded pq snd_conv], of "length s"] by (simp add: l2)
  have a: "add_match st pq = (s2 @ [n2], True)"
    by (simp add: add_match_def st pq l1 l2)
  show ?thesis unfolding a using i2
    by (auto simp: tick_inv_def nth_append Node_def)
qed

lemma pairwise_set:
  "pq \<in> set (pairwise xs) \<Longrightarrow> fst pq \<in> set xs \<and> snd pq \<in> set xs"
  by (induction xs rule: pairwise.induct) auto

lemma pairs_inv:
  assumes "tick_inv s0 N (fst st) Node"
    and "\<forall>pq \<in> set ps. src_ok s0 N (fst pq) \<and> src_ok s0 N (snd pq)"
  shows "tick_inv s0 N (fst (foldl add_match st ps)) Node"
  using assms
proof (induction ps arbitrary: st)
  case Nil
  then show ?case by simp
next
  case (Cons pq ps)
  have "tick_inv s0 N (fst (add_match st pq)) Node"
    using Cons.prems by (intro add_match_inv) simp_all
  then show ?case using Cons.IH [of "add_match st pq"] Cons.prems(2) by simp
qed

lemma pair_class_inv:
  assumes "tick_inv s0 N (fst st) Node" and "\<forall>src \<in> set cls. src_ok s0 N src"
  shows "tick_inv s0 N (fst (pair_class st cls)) Node"
  unfolding pair_class_def using assms(2) pairwise_set [of _ cls]
  by (intro pairs_inv [OF assms(1)]) blast

lemma pair_group_inv:
  assumes "tick_inv s0 N (fst st) Node" and "\<forall>cls \<in> set grp. \<forall>src \<in> set cls. src_ok s0 N src"
  shows "tick_inv s0 N (fst (pair_group st grp)) Node"
  using assms unfolding pair_group_def
proof (induction grp arbitrary: st)
  case Nil
  then show ?case by simp
next
  case (Cons cls grp)
  have "tick_inv s0 N (fst (pair_class st cls)) Node"
    using Cons.prems by (intro pair_class_inv) simp_all
  then show ?case using Cons.IH [of "pair_class st cls"] Cons.prems(2) by simp
qed

lemma run_groups_inv:
  assumes "tick_inv s0 N (fst st) Node"
    and "\<forall>grp \<in> set gs. \<forall>cls \<in> set grp. \<forall>src \<in> set cls. src_ok s0 N src"
  shows "tick_inv s0 N (fst (run_groups st gs)) Node"
  using assms
proof (induction gs arbitrary: st)
  case Nil
  then show ?case by simp
next
  case (Cons grp gs)
  have a: "tick_inv s0 N (fst (pair_group st grp)) Node"
    using Cons.prems by (intro pair_group_inv) simp_all
  show ?case using a Cons.IH [of "pair_group st grp"] Cons.prems(2) by (simp add: Let_def)
qed

lemma group_add_set:
  "set (concat (map snd (group_add k v d))) = insert v (set (concat (map snd d)))"
  by (induction d) (simp, force)

lemma group_fold_set:
  "set (concat (map snd (foldl (\<lambda>d x. group_add (f x) x d) d0 xs))) =
     set xs \<union> set (concat (map snd d0))"
proof (induction xs arbitrary: d0)
  case Nil
  then show ?case by simp
next
  case (Cons x xs)
  show ?case
    using Cons.IH [of "group_add (f x) x d0"] group_add_set [of "f x" x d0] by auto
qed

lemma group_by_set:
  assumes "cls \<in> set (group_by f xs)"
  shows "set cls \<subseteq> set xs"
proof -
  have "set cls \<subseteq> set (concat (group_by f xs))" using assms by auto
  then show ?thesis using group_fold_set [of f "[]" xs] by (simp add: group_by_def)
qed

lemma tick_inv_refl: "tick_inv s0 N s0 Node"
  by (simp add: tick_inv_def Node_def)

lemma groups_src_ok:
  assumes "grp \<in> set [available_by_score s N, available_by_losses s N, available_descending s N]"
    and "cls \<in> set grp" and "src \<in> set cls"
  shows "src_ok s N src"
proof -
  consider "grp = available_by_score s N" | "grp = available_by_losses s N"
    | "grp = available_descending s N" using assms(1) by auto
  then have "set cls \<subseteq> set (available s N)"
  proof cases
    case 1
    then show ?thesis using assms(2) unfolding available_by_score_def by (simp add: group_by_set)
  next
    case 2
    then show ?thesis using assms(2) unfolding available_by_losses_def by (simp add: group_by_set)
  next
    case 3
    then show ?thesis using assms(2) unfolding available_descending_def by simp
  qed
  then show ?thesis using assms(3) available_src_ok by blast
qed

lemma tick_edges:
  "tick_inv s N (fst (run_groups (s, pend)
      [available_by_score s N, available_by_losses s N, available_descending s N])) Node"
  using groups_src_ok [of _ s N] by (intro run_groups_inv tick_inv_refl [unfolded fst_conv]) (simp add: tick_inv_refl, blast)

lemmas tick_eval =
  generate_n_elimination_bracket_online_def available_def available_at_def pending_matches_def
  losses_def wins_def available_by_score_def available_by_losses_def available_descending_def
  group_by_def pair_group_def pair_class_def add_match_def link_def decided_def Node_def
  Let_def pairs_in_def

lemma tick_result:
  assumes "(if nodes0 = [] then generate_initial_pairing shuffle subs else Inr nodes0) = Inr s"
  shows "generate_n_elimination_bracket_online shuffle subs nodes0 N =
     (if \<not> pending_matches s \<and> length (available s N) = 1
      then Inr (s, Winner_node (fst (available s N ! 0)))
      else if \<not> pending_matches s \<and> length (available s N) = 0
      then (if s = [] then Inl IndexError else Inr (s, Winner_node (length s - 1)))
      else Inr (fst (run_groups (s, pending_matches s)
                       [available_by_score s N, available_by_losses s N,
                        available_descending s N]),
                Not_finished))"
  unfolding generate_n_elimination_bracket_online_def assms by (simp add: Let_def)

text \<open>
  C3 (amended). In every tick of \<^verbatim>\<open>generate_n_elimination_bracket_online\<close> that returns,
  an entry made available is the winner of a node with no \<^verbatim>\<open>winner_child\<close>, or the loser
  of a node with no \<^verbatim>\<open>loser_child\<close> yet whose losses, counted over all nodes, are
  strictly less than \<^verbatim>\<open>max_losses\<close>. No node is removed; a node whose \<^verbatim>\<open>loser_child\<close> the
  tick has set, and every source of an inverted-feeder edge of a node the tick has
  created, is such a node: it had no \<^verbatim>\<open>loser_child\<close> and its loser had fewer than
  \<^verbatim>\<open>max_losses\<close> losses when the tick began. Nothing is claimed of the feeder edges:
  the winner of a node is made available whatever its losses.
\<close>

theorem loser_edges_need_losses_below_limit:
  assumes "(if nodes0 = [] then generate_initial_pairing shuffle subs else Inr nodes0) = Inr s"
    and "generate_n_elimination_bracket_online shuffle subs nodes0 N = Inr (s', out)"
  shows "(\<forall>(i, who) \<in> set (available s N).
            i < length s \<and>
            (winner (s ! i) = Some who \<and> winner_child (s ! i) = None \<or>
             loser (s ! i) = Some who \<and> loser_available s N i))
       \<and> length s \<le> length s'
       \<and> (\<forall>i < length s. loser_child (s' ! i) \<noteq> loser_child (s ! i) \<longrightarrow> loser_available s N i)
       \<and> (\<forall>k < length s'. length s \<le> k \<longrightarrow>
            (\<forall>i \<in> set (inverted_feeders (s' ! k)). loser_available s N i))"
proof -
  have a: "\<forall>(i, who) \<in> set (available s N).
            i < length s \<and>
            (winner (s ! i) = Some who \<and> winner_child (s ! i) = None \<or>
             loser (s ! i) = Some who \<and> loser_available s N i)"
  proof (clarify)
    fix i who
    assume "(i, who) \<in> set (available s N)"
    from available_src_ok [OF this]
    show "i < length s \<and>
            (winner (s ! i) = Some who \<and> winner_child (s ! i) = None \<or>
             loser (s ! i) = Some who \<and> loser_available s N i)"
      by (simp add: src_ok_def)
  qed
  have "s' = s \<or> s' = fst (run_groups (s, pending_matches s)
                       [available_by_score s N, available_by_losses s N,
                        available_descending s N])"
    using assms(2) unfolding tick_result [OF assms(1)] by (auto split: if_splits)
  then have "tick_inv s N s' Node"
    using tick_inv_refl [of s N] tick_edges [of s N "pending_matches s"] by auto
  then have b: "length s \<le> length s'"
    "\<forall>i < length s. loser_child (s' ! i) \<noteq> loser_child (s ! i) \<longrightarrow> loser_available s N i"
    "\<forall>k < length s'. length s \<le> k \<longrightarrow>
            (\<forall>i \<in> set (inverted_feeders (s' ! k)). loser_available s N i)"
    unfolding tick_inv_def by blast+
  from a b show ?thesis by blast
qed

text \<open>
  With two decided leaves and \<^verbatim>\<open>max_losses = 2\<close> the tick pairs the winners at node 2
  and the losers, who have one loss each, at node 3.
\<close>

theorem loser_edges_need_losses_below_limit_witness:
  "generate_n_elimination_bracket_online id [] two_decided 2 =
     Inr ([(decided (Sub 1 ''A'') (Sub 2 ''B''))\<lparr>winner_child := Some 2, loser_child := Some 3\<rparr>,
           (decided (Sub 3 ''C'') (Sub 4 ''D''))\<lparr>winner_child := Some 2, loser_child := Some 3\<rparr>,
           Node\<lparr>feeders := [0, 1]\<rparr>,
           Node\<lparr>inverted_feeders := [0, 1]\<rparr>], Not_finished)
   \<and> loser_available two_decided 2 0 \<and> loser_available two_decided 2 1"
proof -
  let ?s' = "[(decided (Sub 1 ''A'') (Sub 2 ''B''))\<lparr>winner_child := Some 2, loser_child := Some 3\<rparr>,
           (decided (Sub 3 ''C'') (Sub 4 ''D''))\<lparr>winner_child := Some 2, loser_child := Some 3\<rparr>,
           Node\<lparr>feeders := [0, 1]\<rparr>,
           Node\<lparr>inverted_feeders := [0, 1]\<rparr>]"
  have e: "(if two_decided = [] then generate_initial_pairing id [] else Inr two_decided)
      = Inr two_decided"
    by (simp add: two_decided_def)
  have r: "generate_n_elimination_bracket_online id [] two_decided 2 = Inr (?s', Not_finished)"
    by (simp add: two_decided_def tick_eval)
  note t = loser_edges_need_losses_below_limit [OF e r]
  have k: "(3::nat) < length ?s'" "length two_decided \<le> 3"
    "0 \<in> set (inverted_feeders (?s' ! 3))" "1 \<in> set (inverted_feeders (?s' ! 3))"
    by (simp_all add: two_decided_def Node_def)
  from t k have "loser_available two_decided 2 0 \<and> loser_available two_decided 2 1" by blast
  with r show ?thesis by blast
qed

text \<open>
  The claim concludes that no submission with \<^verbatim>\<open>max_losses\<close> losses or more is the source
  of a new feeder edge. The guard is on the loser of a node only. Below \<^verbatim>\<open>BYE\<close> is the
  winner and the loser of node 0, so it has one loss, and \<^verbatim>\<open>max_losses = 1\<close>: the entry
  \<open>(0, BYE)\<close> is available as the winner of node 0, the third grouping pairs it with
  \<open>(1, A)\<close>, and node 0 becomes a feeder of the new node 2.
\<close>

theorem winner_with_losses_counterexample:
  "generate_n_elimination_bracket_online id [] bye_winner 1 =
     Inr ([(decided BYE BYE)\<lparr>winner_child := Some 2\<rparr>,
           (decided (Sub 1 ''A'') (Sub 2 ''B''))\<lparr>winner_child := Some 2\<rparr>,
           Node\<lparr>feeders := [0, 1]\<rparr>], Not_finished)
   \<and> winner (bye_winner ! 0) = Some BYE
   \<and> losses bye_winner BYE = 1"
  by (simp add: bye_winner_def tick_eval)

text \<open>
  C6 (amended). In a tick of \<^verbatim>\<open>generate_n_elimination_bracket_online\<close> that does not
  return a node, the available entries are paired within the classes of equal
  \<open>(losses, wins)\<close>, and that is all the tick does when some node had no winner before
  the tick or this grouping holds a pair; otherwise they are paired within the classes
  of equal losses if that grouping holds a pair, and otherwise as one class in
  descending order of losses. A grouping adds nodes exactly when it holds a pair, and
  a grouping that holds none leaves the nodes and the flag as they were. So the
  grouping by losses is used exactly when the first grouping has produced no node and
  no node lacked a winner when the tick began.
\<close>

theorem groupings_tried_in_order:
  assumes "(if nodes0 = [] then generate_initial_pairing shuffle subs else Inr nodes0) = Inr s"
    and "pending_matches s \<or> 2 \<le> length (available s N)"
  shows "generate_n_elimination_bracket_online shuffle subs nodes0 N =
           Inr (fst (pair_group (s, pending_matches s)
                  (if pending_matches s \<or> pairs_in (available_by_score s N)
                   then available_by_score s N
                   else if pairs_in (available_by_losses s N) then available_by_losses s N
                   else available_descending s N)),
                Not_finished)
       \<and> (\<forall>grp b. length s < length (fst (pair_group (s, b) grp)) \<longleftrightarrow> pairs_in grp)
       \<and> (\<forall>grp b. \<not> pairs_in grp \<longrightarrow> pair_group (s, b) grp = (s, b))"
proof -
  let ?p = "pending_matches s"
  let ?g1 = "available_by_score s N" and ?g2 = "available_by_losses s N"
  let ?g3 = "available_descending s N"
  have r: "generate_n_elimination_bracket_online shuffle subs nodes0 N =
      Inr (fst (run_groups (s, ?p) [?g1, ?g2, ?g3]), Not_finished)"
    unfolding tick_result [OF assms(1)] using assms(2) by auto
  have g: "run_groups (s, ?p) [?g1, ?g2, ?g3] =
      pair_group (s, ?p) (if ?p \<or> pairs_in ?g1 then ?g1 else if pairs_in ?g2 then ?g2 else ?g3)"
  proof (cases "?p \<or> pairs_in ?g1")
    case True
    then show ?thesis by (simp add: Let_def pair_group_flag)
  next
    case False
    then have n1: "pair_group (s, ?p) ?g1 = (s, False)" by (simp add: pair_group_none)
    show ?thesis
    proof (cases "pairs_in ?g2")
      case True
      then show ?thesis using False n1 by (simp add: Let_def pair_group_flag)
    next
      case g2: False
      then have n2: "pair_group (s, False) ?g2 = (s, False)" by (simp add: pair_group_none)
      show ?thesis using False g2 n1 n2 by (simp add: Let_def)
    qed
  qed
  have l: "\<forall>grp b. length s < length (fst (pair_group (s, b) grp)) \<longleftrightarrow> pairs_in grp"
    using pair_group_length [of "(s, _)"] by simp
  have n: "\<forall>grp b. \<not> pairs_in grp \<longrightarrow> pair_group (s, b) grp = (s, b)"
    by (simp add: pair_group_none)
  from r g l n show ?thesis by simp
qed

text \<open>
  No match is pending, A has two wins and E one, both no loss: the first grouping holds
  no pair and the grouping by losses pairs them at node 4.
\<close>

theorem groupings_tried_in_order_witness:
  "generate_n_elimination_bracket_online id [] uneven_wins 1 =
     Inr (uneven_wins[2 := (uneven_wins ! 2)\<lparr>winner_child := Some 4\<rparr>,
                      3 := (uneven_wins ! 3)\<lparr>winner_child := Some 4\<rparr>]
          @ [Node\<lparr>feeders := [2, 3]\<rparr>], Not_finished)
   \<and> \<not> pending_matches uneven_wins
   \<and> \<not> pairs_in (available_by_score uneven_wins 1)
   \<and> pairs_in (available_by_losses uneven_wins 1)"
proof -
  have e: "(if uneven_wins = [] then generate_initial_pairing id [] else Inr uneven_wins)
      = Inr uneven_wins"
    by (simp add: uneven_wins_def)
  have h: "pending_matches uneven_wins \<or> 2 \<le> length (available uneven_wins 1)"
    by (simp add: uneven_wins_def tick_eval)
  have p: "\<not> pending_matches uneven_wins" "\<not> pairs_in (available_by_score uneven_wins 1)"
    "pairs_in (available_by_losses uneven_wins 1)"
    by (simp_all add: uneven_wins_def tick_eval)
  have v: "fst (pair_group (uneven_wins, False) (available_by_losses uneven_wins 1)) =
      uneven_wins[2 := (uneven_wins ! 2)\<lparr>winner_child := Some 4\<rparr>,
                  3 := (uneven_wins ! 3)\<lparr>winner_child := Some 4\<rparr>]
          @ [Node\<lparr>feeders := [2, 3]\<rparr>]"
    by (simp add: uneven_wins_def tick_eval)
  from groupings_tried_in_order [OF e h] p v show ?thesis by simp
qed

text \<open>
  The claim has the grouping by losses used exactly when the first grouping has
  produced no node. In \<open>eight_teams\<close> with \<^verbatim>\<open>max_losses = 1\<close> the match G-H is pending, so
  \<^verbatim>\<open>pending_matches\<close> is already set when the loop over the groupings begins. The first
  grouping holds no pair, E having one win and A two, and produces no node; the loop
  is left all the same, and the grouping by losses, which would pair E with A at a
  sixth node, is not used: the nodes are returned as they were.
\<close>

theorem pending_match_blocks_fallback_counterexample:
  "pending_matches eight_teams
   \<and> generate_n_elimination_bracket_online id [] eight_teams 1 = Inr (eight_teams, Not_finished)
   \<and> available_by_score eight_teams 1 = [[(2, Sub 5 ''E'')], [(4, Sub 1 ''A'')]]
   \<and> available_by_losses eight_teams 1 = [[(2, Sub 5 ''E''), (4, Sub 1 ''A'')]]
   \<and> length (fst (pair_group (eight_teams, False) (available_by_losses eight_teams 1))) = 6"
  by (simp add: eight_teams_def tick_eval)

subsection \<open>Needed games\<close>










lemma count_append:
  assumes "\<forall>g \<in> set new. tracked g"
  shows "length (filter tracked (gs @ new)) = length (filter tracked gs) + length new"
  using assms by simp









end
